theory Spec2Isabelle
  imports Complex_Main "HOL-Library.Sublist"
begin

section \<open>Strings\<close>

text \<open>
  Python strings are modelled as \<^typ>\<open>string\<close>. A \<^typ>\<open>char\<close> stands for the code
  point of the same number, so the model covers the transcripts whose code points lie in
  U+0000..U+00FF. On this range \<open>str.lower\<close> and the white-space test shared by
  \<open>str.strip\<close> and the regular expression class \<open>\s\<close> are written out in full.
\<close>

definition isspace :: "char \<Rightarrow> bool" where
  "isspace c =
     (let n = (of_char c :: nat)
      in (9 \<le> n \<and> n \<le> 13) \<or> (28 \<le> n \<and> n \<le> 32) \<or> n = 133 \<or> n = 160)"

definition lower_char :: "char \<Rightarrow> char" where
  "lower_char c =
     (let n = (of_char c :: nat)
      in if (65 \<le> n \<and> n \<le> 90) \<or> (192 \<le> n \<and> n \<le> 222 \<and> n \<noteq> 215)
         then char_of (n + 32) else c)"

definition lower :: "string \<Rightarrow> string" where
  "lower s = map lower_char s"

definition strip :: "string \<Rightarrow> string" where
  "strip s = rev (dropWhile isspace (rev (dropWhile isspace s)))"

definition startswith :: "string \<Rightarrow> string \<Rightarrow> bool" where
  "startswith text p = prefix p text"

definition endswith :: "string \<Rightarrow> string \<Rightarrow> bool" where
  "endswith text p = suffix p text"

definition contains :: "string \<Rightarrow> string \<Rightarrow> bool" where
  \<comment> \<open>\<open>p in text\<close>\<close>
  "contains text p = sublist p text"

section \<open>The question classifier\<close>

definition question_starters :: "string list" where
  "question_starters =
     [''what'', ''why'', ''how'', ''when'', ''where'', ''who'', ''which'',
      ''can'', ''could'', ''would'', ''should'', ''is'', ''are'', ''do'', ''does'',
      ''am'', ''was'', ''were'', ''have'', ''has'', ''had'', ''will'', ''shall'']"

definition inverted_auxiliaries :: "string list" where
  \<comment> \<open>the alternatives of the pattern \<open>^(are|can|...|is)\s\<close>, in its order\<close>
  "inverted_auxiliaries =
     [''are'', ''can'', ''could'', ''do'', ''does'', ''have'', ''has'', ''will'',
      ''shall'', ''should'', ''would'', ''am'', ''is'']"

definition question_phrases :: "string list" where
  "question_phrases =
     [''tell me about'', ''i'' @ [CHR 0x27] @ ''d like to know'', ''can you explain'',
      ''i was wondering'', ''do you know'', ''what about'', ''how about'']"

definition starts_with_starter :: "string \<Rightarrow> bool" where
  "starts_with_starter text = list_ex (\<lambda>starter. startswith text starter) question_starters"

definition re_match_inverted :: "string \<Rightarrow> bool" where
  \<comment> \<open>\<open>re.match\<close> of the pattern at the start of the text: one alternative, then one
      white-space character\<close>
  "re_match_inverted text =
     list_ex (\<lambda>w. startswith text w \<and>
                   (case drop (length w) text of [] \<Rightarrow> False | c # _ \<Rightarrow> isspace c))
       inverted_auxiliaries"

definition contains_phrase :: "string \<Rightarrow> bool" where
  "contains_phrase text = list_ex (\<lambda>phrase. contains text phrase) question_phrases"

definition is_question :: "string \<Rightarrow> bool" where
  "is_question text0 =
     (let text = strip (lower text0)
      in if starts_with_starter text then True
         else if endswith text ''?'' then True
         else if re_match_inverted text then True
         else if contains_phrase text then True
         else False)"

definition is_question_without_rule4 :: "string \<Rightarrow> bool" where
  \<comment> \<open>the classifier as the specification allows it to be folded: the same rules in the
      same order, the regular expression left out\<close>
  "is_question_without_rule4 text0 =
     (let text = strip (lower text0)
      in if starts_with_starter text then True
         else if endswith text ''?'' then True
         else if contains_phrase text then True
         else False)"

section \<open>Exceptions\<close>

text \<open>
  The two exception classes the loop names in its handlers, and every other subclass of
  \<open>Exception\<close>. Each carries the text that \<open>str(e)\<close> returns.
\<close>

datatype exn = WaitTimeoutError string | UnknownValueError string | Exception string

fun str :: "exn \<Rightarrow> string" where
  "str (WaitTimeoutError m) = m"
| "str (UnknownValueError m) = m"
| "str (Exception m) = m"

section \<open>Normalising an accepted transcript\<close>

definition upper_char :: "char \<Rightarrow> string" where
  \<comment> \<open>\<open>str.upper\<close> of a one-character string. U+00DF becomes two letters. The upper
      case of U+00B5 and of U+00FF lies beyond U+00FF; the model leaves these two as
      they are.\<close>
  "upper_char c =
     (let n = (of_char c :: nat)
      in if (97 \<le> n \<and> n \<le> 122) \<or> (224 \<le> n \<and> n \<le> 254 \<and> n \<noteq> 247)
         then [char_of (n - 32)]
         else if n = 223 then ''SS'' else [c])"

definition capitalize_question :: "string \<Rightarrow> exn + string" where
  \<comment> \<open>lines 86 to 88; \<open>text[0]\<close> on the empty string raises IndexError\<close>
  "capitalize_question text =
     (case text of
        [] \<Rightarrow> Inl (Exception ''string index out of range'')
      | c # cs \<Rightarrow>
          (let capitalized_text = upper_char c @ cs
           in Inr (if endswith capitalized_text ''?'' then capitalized_text
                   else capitalized_text @ ''?'')))"

section \<open>Session state and facade\<close>

datatype client = OpenAI "string option"

record assistant =
  is_listening :: bool
  client :: "client option"
  api_key :: "string option"
  tts_enabled :: bool
  is_speaking :: bool
  audio_playing :: bool

text \<open>
  What the program does to the outside world, in the order it does it. \<open>Listen t\<close> is
  the call of \<open>recognizer.listen\<close> in the iteration whose clock reading (line 76) was
  \<open>t\<close>; \<open>Answered t\<close> is the assignment of the clock reading \<open>t\<close> to
  \<open>last_speak_time\<close> (line 94); \<open>UpdateUI q a\<close> is \<open>eel.update_ui(q, a)\<close>.
\<close>

datatype event =
    ThreadStart
  | Listen real
  | Recognize
  | UpdateUI string string
  | ChatCompletion string
  | Speech string
  | Print string
  | Answered real
  | Sleep

definition new_assistant :: assistant where
  \<comment> \<open>the fields as \<open>__init__\<close> sets them, before \<open>load_api_key\<close>\<close>
  "new_assistant =
     \<lparr>is_listening = False, client = None, api_key = None, tts_enabled = True,
      is_speaking = False, audio_playing = False\<rparr>"

definition set_api_key :: "(exn + client) \<Rightarrow> exn option \<Rightarrow> string option \<Rightarrow> assistant \<Rightarrow> exn option \<times> assistant" where
  \<comment> \<open>the first argument is the outcome of the constructor \<open>OpenAI(api_key=...)\<close>, the
      second the outcome of writing \<open>config.json\<close> (\<open>None\<close>: written); the result is
      the exception raised, if any, and the session\<close>
  "set_api_key made written k s =
     (let s1 = s\<lparr>api_key := k\<rparr>
      in case made of
           Inl e \<Rightarrow> (Some e, s1)
         | Inr c \<Rightarrow> (written, s1\<lparr>client := Some c\<rparr>))"




definition toggle_listening :: "assistant \<Rightarrow> bool \<times> assistant \<times> event list" where
  \<comment> \<open>the returned value, the state afterwards, and whether the loop thread is started\<close>
  "toggle_listening s =
     (if client s = None then (False, s, [])
      else
        (let s1 = s\<lparr>is_listening := \<not> is_listening s\<rparr>
         in (is_listening s1, s1, if is_listening s1 then [ThreadStart] else [])))"

definition toggle_tts :: "assistant \<Rightarrow> bool \<times> assistant" where
  "toggle_tts s = (let s1 = s\<lparr>tts_enabled := \<not> tts_enabled s\<rparr> in (tts_enabled s1, s1))"

definition speaking_ended :: "assistant \<Rightarrow> assistant" where
  "speaking_ended s = s\<lparr>is_speaking := False\<rparr>"

definition audio_playback_started :: "assistant \<Rightarrow> assistant" where
  "audio_playback_started s = s\<lparr>audio_playing := True\<rparr>"

definition audio_playback_ended :: "assistant \<Rightarrow> assistant" where
  "audio_playback_ended s = s\<lparr>audio_playing := False, is_speaking := False\<rparr>"

section \<open>The answer round trip\<close>

definition hex_digit :: "nat \<Rightarrow> char" where
  "hex_digit n = ''0123456789abcdef'' ! (n mod 16)"

definition json_escape :: "char \<Rightarrow> string" where
  \<comment> \<open>\<open>json.dumps\<close> with its default \<open>ensure_ascii=True\<close>\<close>
  "json_escape c =
     (let n = (of_char c :: nat)
      in if n = 0x22 then [CHR 0x5C, CHR 0x22]
         else if n = 0x5C then [CHR 0x5C, CHR 0x5C]
         else if n = 0x0A then [CHR 0x5C, CHR ''n'']
         else if n = 0x0D then [CHR 0x5C, CHR ''r'']
         else if n = 0x09 then [CHR 0x5C, CHR ''t'']
         else if n = 0x0C then [CHR 0x5C, CHR ''f'']
         else if n = 0x08 then [CHR 0x5C, CHR ''b'']
         else if 32 \<le> n \<and> n \<le> 126 then [c]
         else [CHR 0x5C, CHR ''u'', CHR ''0'', CHR ''0'', hex_digit (n div 16), hex_digit n])"

definition json_string :: "string \<Rightarrow> string" where
  "json_string s = [CHR 0x22] @ concat (map json_escape s) @ [CHR 0x22]"

definition json_dumps :: "string \<Rightarrow> string option \<Rightarrow> string" where
  \<comment> \<open>\<open>json.dumps({"text": text, "audio": audio})\<close>\<close>
  "json_dumps text audio =
     ''{'' @ json_string ''text'' @ '': '' @ json_string text @ '', '' @
     json_string ''audio'' @ '': '' @
     (case audio of None \<Rightarrow> ''null'' | Some b \<Rightarrow> json_string b) @ ''}''"

text \<open>
  The remote services of one round trip. \<open>chat_create q\<close> is the outcome of
  \<open>client.chat.completions.create\<close> for the user message \<open>q\<close>: an exception, or the
  \<open>message.content\<close> of each entry of \<open>response.choices\<close> (which may be \<open>None\<close>).
  \<open>speech_create t\<close> is the outcome of \<open>client.audio.speech.create\<close> for the input
  \<open>t\<close>: an exception, or the bytes of the audio. \<open>b64encode\<close> is the library function,
  taken as a parameter.
\<close>

record services =
  chat_create :: "string \<Rightarrow> exn + string option list"
  speech_create :: "string \<Rightarrow> exn + string"
  b64encode :: "string \<Rightarrow> string"

definition attribute_error :: "string \<Rightarrow> string" where
  \<comment> \<open>the message of the AttributeError raised by an attribute access on \<open>None\<close>\<close>
  "attribute_error a =
     [CHR 0x27] @ ''NoneType'' @ [CHR 0x27] @ '' object has no attribute '' @
     [CHR 0x27] @ a @ [CHR 0x27]"

definition get_ai_response_try :: "assistant \<Rightarrow> services \<Rightarrow> string \<Rightarrow> (exn + string) \<times> event list" where
  \<comment> \<open>the body of the \<open>try\<close>, lines 141 to 164\<close>
  "get_ai_response_try s sv question =
     (case client s of
        None \<Rightarrow> (Inl (Exception (attribute_error ''chat'')), [])
      | Some c \<Rightarrow>
          (case chat_create sv question of
             Inl e \<Rightarrow> (Inl e, [ChatCompletion question])
           | Inr choices \<Rightarrow>
               (case choices of
                  [] \<Rightarrow> (Inl (Exception ''list index out of range''), [ChatCompletion question])
                | content # _ \<Rightarrow>
                    (case content of
                       None \<Rightarrow>
                         (Inl (Exception (attribute_error ''strip'')),
                          [ChatCompletion question])
                     | Some raw \<Rightarrow>
                         (let text_response = strip raw
                          in if tts_enabled s then
                               (case speech_create sv text_response of
                                  Inl e \<Rightarrow>
                                    (Inl e, [ChatCompletion question, Speech text_response])
                                | Inr speech \<Rightarrow>
                                    (Inr (json_dumps text_response (Some (b64encode sv speech))),
                                     [ChatCompletion question, Speech text_response]))
                             else
                               (Inr (json_dumps text_response None),
                                [ChatCompletion question]))))))"

definition get_ai_response :: "assistant \<Rightarrow> services \<Rightarrow> string \<Rightarrow> (exn + string) \<times> event list" where
  \<comment> \<open>\<open>Inl\<close> would be an exception leaving the function; the handler of line 165 catches
      every exception of the body\<close>
  "get_ai_response s sv question =
     (case get_ai_response_try s sv question of
        (Inr r, tr) \<Rightarrow> (Inr r, tr)
      | (Inl e, tr) \<Rightarrow>
          (Inr (json_dumps (''Error getting AI response: '' @ str e) None),
           tr @ [Print (''Error in get_ai_response: '' @ str e)]))"

section \<open>The listening loop\<close>

text \<open>
  The outcomes of the external calls of one iteration of \<open>listen_and_process\<close>, in
  the order of the calls: the clock reading of line 76, \<open>recognizer.listen\<close>
  (\<open>None\<close>: audio was captured), \<open>recognize_google\<close>, the three calls of
  \<open>eel.update_ui\<close> (\<open>None\<close>: the call returned), the remote services, and the clock
  reading of line 94. Clock readings are real numbers.
\<close>

record iteration =
  current_time :: real
  listen :: "exn option"
  recognize_google :: "exn + string"
  update_ui_question :: "exn option"
  remote :: services
  update_ui_answer :: "exn option"
  end_time :: real
  update_ui_error :: "exn option"

definition cooldown_time :: real where
  "cooldown_time = 2"

definition listen_try :: "assistant \<Rightarrow> real \<Rightarrow> iteration \<Rightarrow> exn option \<times> assistant \<times> real \<times> event list" where
  \<comment> \<open>the body of the \<open>try\<close>, lines 80 to 94: the exception it raises if any, the
      session state and \<open>last_speak_time\<close> at that point, and what was done\<close>
  "listen_try s last_speak_time it =
     (let heard = [Listen (current_time it)]
      in case listen it of
           Some e \<Rightarrow> (Some e, s, last_speak_time, heard)
         | None \<Rightarrow>
             (case recognize_google it of
                Inl e \<Rightarrow> (Some e, s, last_speak_time, heard @ [Recognize])
              | Inr text \<Rightarrow>
                  if is_question text then
                    (case capitalize_question text of
                       Inl e \<Rightarrow> (Some e, s, last_speak_time, heard @ [Recognize])
                     | Inr capitalized_text \<Rightarrow>
                         (let asked = heard @ [Recognize, UpdateUI (''Q: '' @ capitalized_text) []]
                          in case update_ui_question it of
                               Some e \<Rightarrow> (Some e, s, last_speak_time, asked)
                             | None \<Rightarrow>
                                 (let s1 = s\<lparr>is_speaking := True\<rparr>
                                  in case get_ai_response s1 (remote it) capitalized_text of
                                       (Inl e, tr) \<Rightarrow> (Some e, s1, last_speak_time, asked @ tr)
                                     | (Inr response, tr) \<Rightarrow>
                                         (let answered = asked @ tr @ [UpdateUI [] response]
                                          in case update_ui_answer it of
                                               Some e \<Rightarrow> (Some e, s1, last_speak_time, answered)
                                             | None \<Rightarrow>
                                                 (None, s1\<lparr>is_speaking := False\<rparr>, end_time it,
                                                  answered @ [Answered (end_time it)])))))
                  else (None, s, last_speak_time, heard @ [Recognize])))"

definition iteration_step :: "assistant \<Rightarrow> real \<Rightarrow> iteration \<Rightarrow> exn option \<times> assistant \<times> real \<times> event list" where
  \<comment> \<open>the body of the \<open>while\<close>, lines 76 to 102; the first component is the exception
      that leaves the loop, if any\<close>
  "iteration_step s last_speak_time it =
     (if \<not> is_speaking s \<and> \<not> audio_playing s \<and>
         current_time it - last_speak_time > cooldown_time
      then
        (case listen_try s last_speak_time it of
           (None, s', last', tr) \<Rightarrow> (None, s', last', tr)
         | (Some (WaitTimeoutError m), s', last', tr) \<Rightarrow> (None, s', last', tr)
         | (Some (UnknownValueError m), s', last', tr) \<Rightarrow> (None, s', last', tr)
         | (Some (Exception m), s', last', tr) \<Rightarrow>
             (update_ui_error it, s', last', tr @ [UpdateUI (''An error occurred: '' @ m) []]))
      else (None, s, last_speak_time, [Sleep]))"

text \<open>
  The calls that the presentation layer makes on the facade while the loop runs. The
  model lets them happen between two iterations of the loop.
\<close>

datatype facade_call =
  SpeakingEnded | AudioPlaybackStarted | AudioPlaybackEnded | ToggleTts | ToggleListening

fun facade :: "facade_call \<Rightarrow> assistant \<Rightarrow> assistant" where
  "facade SpeakingEnded s = speaking_ended s"
| "facade AudioPlaybackStarted s = audio_playback_started s"
| "facade AudioPlaybackEnded s = audio_playback_ended s"
| "facade ToggleTts s = snd (toggle_tts s)"
| "facade ToggleListening s = fst (snd (toggle_listening s))"

datatype scheduled = Iteration iteration | Call facade_call

fun listen_and_process_from :: "assistant \<Rightarrow> real \<Rightarrow> scheduled list \<Rightarrow> exn option \<times> assistant \<times> real \<times> event list" where
  \<comment> \<open>the \<open>while\<close> loop along a schedule: it ends when \<open>is_listening\<close> is false at the
      top of an iteration, or with the exception that left the body\<close>
  "listen_and_process_from s last_speak_time [] = (None, s, last_speak_time, [])"
| "listen_and_process_from s last_speak_time (Call c # rest) =
     listen_and_process_from (facade c s) last_speak_time rest"
| "listen_and_process_from s last_speak_time (Iteration it # rest) =
     (if is_listening s then
        (case iteration_step s last_speak_time it of
           (Some e, s', last', tr) \<Rightarrow> (Some e, s', last', tr)
         | (None, s', last', tr) \<Rightarrow>
             (case listen_and_process_from s' last' rest of
                (r, s'', last'', tr') \<Rightarrow> (r, s'', last'', tr @ tr')))
      else (None, s, last_speak_time, []))"

definition listen_and_process :: "assistant \<Rightarrow> scheduled list \<Rightarrow> exn option \<times> assistant \<times> real \<times> event list" where
  \<comment> \<open>line 73: \<open>last_speak_time = 0\<close>\<close>
  "listen_and_process s schedule = listen_and_process_from s 0 schedule"

definition trace :: "exn option \<times> assistant \<times> real \<times> event list \<Rightarrow> event list" where
  "trace r = snd (snd (snd r))"

definition captures :: "event list \<Rightarrow> real list" where
  \<comment> \<open>the capture attempts of a trace, by the clock reading of their iteration\<close>
  "captures tr = [t. Listen t \<leftarrow> tr]"

definition cooldown_elapsed :: "real \<Rightarrow> real \<Rightarrow> bool" where
  \<comment> \<open>the guard in the specification's words: the iteration idles when less than the
      cooldown interval has elapsed since the last completed answer\<close>
  "cooldown_elapsed now last_speak_time = (\<not> now - last_speak_time < cooldown_time)"

fun cooldown_respected :: "real \<Rightarrow> event list \<Rightarrow> bool" where
  \<comment> \<open>every capture attempt of the trace comes no less than the cooldown interval after
      the completion time recorded last\<close>
  "cooldown_respected last_speak_time [] = True"
| "cooldown_respected last_speak_time (Listen t # es) =
     (cooldown_time \<le> t - last_speak_time \<and> cooldown_respected last_speak_time es)"
| "cooldown_respected last_speak_time (Answered t # es) = cooldown_respected t es"
| "cooldown_respected last_speak_time (e # es) = cooldown_respected last_speak_time es"

definition published :: "event list \<Rightarrow> (string \<times> string) list" where
  \<comment> \<open>the lines sent to the display surface: the two arguments of each \<open>eel.update_ui\<close>\<close>
  "published tr = [(q, a). UpdateUI q a \<leftarrow> tr]"

fun clears_speaking :: "scheduled \<Rightarrow> bool" where
  \<comment> \<open>the two notifications that set \<open>is_speaking\<close> to false\<close>
  "clears_speaking (Call SpeakingEnded) = True"
| "clears_speaking (Call AudioPlaybackEnded) = True"
| "clears_speaking _ = False"

section \<open>A session used in the examples\<close>

definition example_services :: services where
  "example_services =
     \<lparr>chat_create = (\<lambda>q. Inr [Some '' Yes. '']),
      speech_create = (\<lambda>t. Inr ''abc''),
      b64encode = (\<lambda>b. ''YWJj'')\<rparr>"

definition example_assistant :: assistant where
  \<comment> \<open>a fresh assistant after \<open>set_api_key\<close> and a first \<open>toggle_listening\<close>\<close>
  "example_assistant =
     fst (snd (toggle_listening
       (snd (set_api_key (Inr (OpenAI (Some ''sk''))) None (Some ''sk'') new_assistant))))"

definition example_iteration :: iteration where
  \<comment> \<open>an iteration in which "are you there" is heard and every call succeeds\<close>
  "example_iteration =
     \<lparr>current_time = 100, listen = None, recognize_google = Inr ''are you there'',
      update_ui_question = None, remote = example_services, update_ui_answer = None,
      end_time = 103, update_ui_error = None\<rparr>"

section \<open>Properties of the classifier\<close>

lemma re_match_inverted_starter:
  "re_match_inverted text \<Longrightarrow> starts_with_starter text"
  unfolding re_match_inverted_def starts_with_starter_def
    inverted_auxiliaries_def question_starters_def
  by auto

lemma is_question_empty: "\<not> is_question []"
  by code_simp

lemma is_question_are_you_there: "is_question ''are you there''"
  by code_simp

lemma capitalize_are_you_there: "capitalize_question ''are you there'' = Inr ''Are you there?''"
  by code_simp

text \<open>
  C3: the classifier accepts "what is the weather", "Is this working?" and
  "tell me about dogs", and rejects "I like dogs" and the empty string.
\<close>

theorem is_question_concrete_cases:
  "is_question ''what is the weather'' \<and> is_question ''Is this working?'' \<and>
   is_question ''tell me about dogs'' \<and> \<not> is_question ''I like dogs'' \<and>
   \<not> is_question ''''"
proof -
  have "is_question ''what is the weather''" by code_simp
  moreover have "is_question ''Is this working?''" by code_simp
  moreover have "is_question ''tell me about dogs''" by code_simp
  moreover have "\<not> is_question ''I like dogs''" by code_simp
  moreover have "\<not> is_question ''''" by code_simp
  ultimately show ?thesis by blast
qed

text \<open>
  C7: the rule of the regular expression is redundant. Leaving it out gives the same
  answer on every input, since a text that the pattern matches starts with one of the
  starter words.
\<close>

theorem rule4_redundant:
  "is_question_without_rule4 t = is_question t \<and>
   (re_match_inverted u \<longrightarrow> starts_with_starter u)"
  by (auto simp: is_question_without_rule4_def is_question_def Let_def
      dest: re_match_inverted_starter)

theorem rule4_redundant_witness:
  "re_match_inverted ''are you there'' \<and> starts_with_starter ''are you there'' \<and>
   is_question_without_rule4 ''Are you there'' = is_question ''Are you there''"
proof -
  have m: "re_match_inverted ''are you there''" by code_simp
  from rule4_redundant [of "''Are you there''" "''are you there''"] m
  show ?thesis by blast
qed

text \<open>
  C8: the starter words are matched as raw prefixes. "island weather today" is
  classified as a question through the prefix "is" alone, and "haddock recipes" through
  the prefix "had" alone: no other starter word and no other rule applies to them.
\<close>

theorem starter_prefix_without_word_boundary:
  "is_question ''island weather today'' \<and>
   filter (startswith (strip (lower ''island weather today''))) question_starters = [''is''] \<and>
   \<not> endswith (strip (lower ''island weather today'')) ''?'' \<and>
   \<not> re_match_inverted (strip (lower ''island weather today'')) \<and>
   \<not> contains_phrase (strip (lower ''island weather today'')) \<and>
   is_question ''haddock recipes'' \<and>
   filter (startswith (strip (lower ''haddock recipes''))) question_starters = [''had''] \<and>
   \<not> endswith (strip (lower ''haddock recipes'')) ''?'' \<and>
   \<not> re_match_inverted (strip (lower ''haddock recipes'')) \<and>
   \<not> contains_phrase (strip (lower ''haddock recipes''))"
proof -
  have "is_question ''island weather today''" by code_simp
  moreover have
    "filter (startswith (strip (lower ''island weather today''))) question_starters = [''is'']"
    by code_simp
  moreover have "\<not> endswith (strip (lower ''island weather today'')) ''?''" by code_simp
  moreover have "\<not> re_match_inverted (strip (lower ''island weather today''))" by code_simp
  moreover have "\<not> contains_phrase (strip (lower ''island weather today''))" by code_simp
  moreover have "is_question ''haddock recipes''" by code_simp
  moreover have
    "filter (startswith (strip (lower ''haddock recipes''))) question_starters = [''had'']"
    by code_simp
  moreover have "\<not> endswith (strip (lower ''haddock recipes'')) ''?''" by code_simp
  moreover have "\<not> re_match_inverted (strip (lower ''haddock recipes''))" by code_simp
  moreover have "\<not> contains_phrase (strip (lower ''haddock recipes''))" by code_simp
  ultimately show ?thesis by blast
qed

text \<open>
  C10: a transcript that the classifier accepts is not empty, so that reading its first
  character in the normalisation step does not raise: the step returns a question.
\<close>

theorem accepted_transcript_nonempty:
  "is_question t \<Longrightarrow> t \<noteq> [] \<and> (\<exists>q. capitalize_question t = Inr q)"
proof -
  assume a: "is_question t"
  have ne: "t \<noteq> []"
  proof
    assume "t = []"
    with a is_question_empty show False by simp
  qed
  then obtain c cs where "t = c # cs" by (cases t) auto
  then have "\<exists>q. capitalize_question t = Inr q"
    by (simp add: capitalize_question_def Let_def)
  with ne show ?thesis by simp
qed

theorem accepted_transcript_nonempty_witness:
  "is_question ''is it?'' \<and> ''is it?'' \<noteq> [] \<and> (\<exists>q. capitalize_question ''is it?'' = Inr q)"
proof -
  have h: "is_question ''is it?''" by code_simp
  from accepted_transcript_nonempty [OF h] h show ?thesis by blast
qed

section \<open>Properties of the facade\<close>




section \<open>Properties of the answer round trip\<close>

lemma get_ai_response_returns: "\<exists>r tr. get_ai_response s sv q = (Inr r, tr)"
  by (cases "get_ai_response_try s sv q")
    (auto simp: get_ai_response_def split: sum.splits)




lemma example_assistant_simps:
  "client example_assistant = Some (OpenAI (Some ''sk''))"
  "is_listening example_assistant" "tts_enabled example_assistant"
  "\<not> is_speaking example_assistant" "\<not> audio_playing example_assistant"
  by (simp_all add: example_assistant_def toggle_listening_def set_api_key_def
      new_assistant_def Let_def)


section \<open>Properties of one iteration\<close>

lemma get_ai_response_try_trace:
  "get_ai_response_try s sv q = (r, tr) \<Longrightarrow>
     (\<forall>t. Listen t \<notin> set tr) \<and> (\<forall>t. Answered t \<notin> set tr) \<and> (\<forall>a b. UpdateUI a b \<notin> set tr)"
  by (auto simp: get_ai_response_try_def Let_def
      split: option.splits sum.splits list.splits if_splits)

lemma get_ai_response_trace:
  assumes "get_ai_response s sv q = (r, tr)"
  shows "(\<forall>t. Listen t \<notin> set tr) \<and> (\<forall>t. Answered t \<notin> set tr) \<and>
    (\<forall>a b. UpdateUI a b \<notin> set tr)"
proof (cases "get_ai_response_try s sv q")
  case (Pair r0 tr0)
  note tr0 = get_ai_response_try_trace [OF Pair]
  show ?thesis
  proof (cases r0)
    case (Inl e)
    with Pair assms have "tr = tr0 @ [Print (''Error in get_ai_response: '' @ str e)]"
      by (simp add: get_ai_response_def)
    with tr0 show ?thesis by simp
  next
    case (Inr a)
    with Pair assms have "tr = tr0" by (simp add: get_ai_response_def)
    with tr0 show ?thesis by simp
  qed
qed

lemma iteration_step_idle:
  "is_speaking s \<or> audio_playing s \<or> \<not> current_time it - lst > cooldown_time \<Longrightarrow>
     iteration_step s lst it = (None, s, lst, [Sleep])"
  by (auto simp: iteration_step_def)

lemma listen_try_shape:
  assumes "listen_try s lst it = (r, s', last', tr)"
  shows "\<exists>mid. (\<forall>t. Listen t \<notin> set mid) \<and> (\<forall>t. Answered t \<notin> set mid) \<and>
    ((tr = Listen (current_time it) # mid \<and> last' = lst) \<or>
     (tr = Listen (current_time it) # mid @ [Answered (end_time it)] \<and>
      last' = end_time it \<and> r = None))"
proof (cases "listen it")
  case (Some e)
  with assms show ?thesis by (auto simp: listen_try_def)
next
  case None
  note heard = None
  show ?thesis
  proof (cases "recognize_google it")
    case (Inl e)
    with heard assms show ?thesis by (auto simp: listen_try_def)
  next
    case (Inr transcript)
    note recognized = Inr
    show ?thesis
    proof (cases "is_question transcript")
      case False
      with heard recognized assms show ?thesis by (auto simp: listen_try_def)
    next
      case True
      note accepted = True
      show ?thesis
      proof (cases "capitalize_question transcript")
        case (Inl e)
        with heard recognized accepted assms show ?thesis by (auto simp: listen_try_def)
      next
        case (Inr capitalized_text)
        note capitalized = Inr
        show ?thesis
        proof (cases "update_ui_question it")
          case (Some e)
          with heard recognized accepted capitalized assms show ?thesis
            by (auto simp: listen_try_def)
        next
          case None
          note asked = None
          obtain resp tr1 where
            g: "get_ai_response (s\<lparr>is_speaking := True\<rparr>) (remote it) capitalized_text = (resp, tr1)"
            by (cases "get_ai_response (s\<lparr>is_speaking := True\<rparr>) (remote it) capitalized_text")
          note tr1 = get_ai_response_trace [OF g]
          let ?asked = "[Recognize, UpdateUI (''Q: '' @ capitalized_text) []]"
          show ?thesis
          proof (cases resp)
            case (Inl e)
            with heard recognized accepted capitalized asked g assms
            have "tr = Listen (current_time it) # (?asked @ tr1)" "last' = lst"
              by (auto simp: listen_try_def Let_def)
            with tr1 show ?thesis
              by (intro exI [of _ "?asked @ tr1"]) auto
          next
            case (Inr response)
            note answered = Inr
            let ?mid = "?asked @ tr1 @ [UpdateUI [] response]"
            show ?thesis
            proof (cases "update_ui_answer it")
              case (Some e)
              with heard recognized accepted capitalized asked g answered assms
              have "tr = Listen (current_time it) # ?mid" "last' = lst"
                by (auto simp: listen_try_def Let_def)
              with tr1 show ?thesis
                by (intro exI [of _ ?mid]) auto
            next
              case None
              with heard recognized accepted capitalized asked g answered assms
              have "tr = Listen (current_time it) # ?mid @ [Answered (end_time it)]"
                "last' = end_time it" "r = None"
                by (auto simp: listen_try_def Let_def)
              with tr1 show ?thesis
                by (intro exI [of _ ?mid]) auto
            qed
          qed
        qed
      qed
    qed
  qed
qed

lemma iteration_step_shape:
  assumes "iteration_step s lst it = (r, s', last', tr)"
    and "\<not> is_speaking s" and "\<not> audio_playing s"
    and "current_time it - lst > cooldown_time"
  shows "\<exists>mid. (\<forall>t. Listen t \<notin> set mid) \<and> (\<forall>t. Answered t \<notin> set mid) \<and>
    ((tr = Listen (current_time it) # mid \<and> last' = lst) \<or>
     (tr = Listen (current_time it) # mid @ [Answered (end_time it)] \<and>
      last' = end_time it \<and> r = None))"
proof -
  obtain r0 s0 last0 tr0 where l: "listen_try s lst it = (r0, s0, last0, tr0)"
    by (cases "listen_try s lst it") auto
  from listen_try_shape [OF l] obtain mid where
    mid: "\<forall>t. Listen t \<notin> set mid" "\<forall>t. Answered t \<notin> set mid"
      "(tr0 = Listen (current_time it) # mid \<and> last0 = lst) \<or>
       (tr0 = Listen (current_time it) # mid @ [Answered (end_time it)] \<and>
        last0 = end_time it \<and> r0 = None)"
    by blast
  show ?thesis
  proof (cases r0)
    case None
    with assms l have "tr = tr0" "last' = last0" "r = None"
      by (auto simp: iteration_step_def)
    with mid None show ?thesis by blast
  next
    case (Some e)
    with mid have tr0: "tr0 = Listen (current_time it) # mid" "last0 = lst" by auto
    show ?thesis
    proof (cases e)
      case (Exception m)
      with Some assms l tr0
      have "tr = Listen (current_time it) # (mid @ [UpdateUI (''An error occurred: '' @ m) []])"
        "last' = lst"
        by (auto simp: iteration_step_def)
      with mid show ?thesis
        by (intro exI [of _ "mid @ [UpdateUI (''An error occurred: '' @ m) []]"]) auto
    next
      case (WaitTimeoutError m)
      with Some assms l tr0 have "tr = Listen (current_time it) # mid" "last' = lst"
        by (auto simp: iteration_step_def)
      with mid show ?thesis by blast
    next
      case (UnknownValueError m)
      with Some assms l tr0 have "tr = Listen (current_time it) # mid" "last' = lst"
        by (auto simp: iteration_step_def)
      with mid show ?thesis by blast
    qed
  qed
qed

lemma captures_append: "captures (xs @ ys) = captures xs @ captures ys"
  by (simp add: captures_def)

lemma captures_none: "(\<forall>t. Listen t \<notin> set tr) \<Longrightarrow> captures tr = []"
proof (induction tr)
  case Nil
  show ?case by (simp add: captures_def)
next
  case (Cons e es)
  then have "captures es = []" by simp
  moreover from Cons.prems have "\<forall>t. e \<noteq> Listen t" by auto
  ultimately show ?case by (cases e) (auto simp: captures_def)
qed

lemma iteration_step_captures:
  "captures (trace (iteration_step s lst it)) =
     (if \<not> is_speaking s \<and> \<not> audio_playing s \<and> current_time it - lst > cooldown_time
      then [current_time it] else [])"
proof (cases "\<not> is_speaking s \<and> \<not> audio_playing s \<and> current_time it - lst > cooldown_time")
  case False
  then have "iteration_step s lst it = (None, s, lst, [Sleep])"
    by (intro iteration_step_idle) auto
  with False show ?thesis by (simp add: trace_def captures_def)
next
  case True
  obtain r s' last' tr where st: "iteration_step s lst it = (r, s', last', tr)"
    by (cases "iteration_step s lst it") auto
  from iteration_step_shape [OF st] True obtain mid where
    "\<forall>t. Listen t \<notin> set mid"
    "tr = Listen (current_time it) # mid \<or> tr = Listen (current_time it) # mid @ [Answered (end_time it)]"
    by blast
  then have "captures tr = [current_time it]"
    using captures_none [of mid] by (auto simp: captures_def)
  with True st show ?thesis by (simp add: trace_def)
qed

text \<open>
  C1, as the code has it: an iteration in which \<open>is_speaking\<close> or \<open>audio_playing\<close> is
  true, or in which no more than the cooldown interval has passed since the recorded
  completion of the last answer, makes no capture attempt and only sleeps; an iteration
  in which both flags are false and strictly more than the cooldown interval has passed
  makes exactly one capture attempt.
\<close>

theorem capture_guard:
  "(is_speaking s \<or> audio_playing s \<or> current_time it - lst \<le> cooldown_time \<longrightarrow>
      trace (iteration_step s lst it) = [Sleep] \<and>
      captures (trace (iteration_step s lst it)) = []) \<and>
   (\<not> is_speaking s \<and> \<not> audio_playing s \<and> cooldown_time < current_time it - lst \<longrightarrow>
      captures (trace (iteration_step s lst it)) = [current_time it])"
proof (intro conjI impI)
  assume a: "is_speaking s \<or> audio_playing s \<or> current_time it - lst \<le> cooldown_time"
  then have "iteration_step s lst it = (None, s, lst, [Sleep])"
    by (intro iteration_step_idle) auto
  then show "trace (iteration_step s lst it) = [Sleep]"
    by (simp add: trace_def)
  from a show "captures (trace (iteration_step s lst it)) = []"
    by (auto simp: iteration_step_captures)
next
  assume "\<not> is_speaking s \<and> \<not> audio_playing s \<and> cooldown_time < current_time it - lst"
  then show "captures (trace (iteration_step s lst it)) = [current_time it]"
    by (simp add: iteration_step_captures)
qed

theorem capture_guard_witness:
  "is_speaking (example_assistant\<lparr>is_speaking := True\<rparr>) \<and>
   trace (iteration_step (example_assistant\<lparr>is_speaking := True\<rparr>) 0 example_iteration) = [Sleep] \<and>
   \<not> is_speaking example_assistant \<and> \<not> audio_playing example_assistant \<and>
   cooldown_time < current_time example_iteration - 0 \<and>
   captures (trace (iteration_step example_assistant 0 example_iteration)) = [100]"
proof -
  have g: "\<not> is_speaking example_assistant \<and> \<not> audio_playing example_assistant \<and>
      cooldown_time < current_time example_iteration - 0"
    by (simp add: example_assistant_simps example_iteration_def cooldown_time_def)
  have t: "current_time example_iteration = 100"
    by (simp add: example_iteration_def)
  from capture_guard [of "example_assistant\<lparr>is_speaking := True\<rparr>" example_iteration 0]
  have "trace (iteration_step (example_assistant\<lparr>is_speaking := True\<rparr>) 0 example_iteration) = [Sleep]"
    by simp
  moreover from g capture_guard [of example_assistant example_iteration 0]
  have "captures (trace (iteration_step example_assistant 0 example_iteration)) = [100]"
    using t by simp
  ultimately show ?thesis using g by simp
qed

text \<open>
  C1, as it is stated, fails when exactly the cooldown interval has passed: with both
  flags false, the last answer completed at 100 and the clock at 102, the cooldown
  interval of 2 has elapsed, yet the iteration makes no capture attempt.
\<close>

theorem capture_guard_counterexample:
  "\<not> is_speaking example_assistant \<and> \<not> audio_playing example_assistant \<and>
   cooldown_elapsed (current_time (example_iteration\<lparr>current_time := 102\<rparr>)) 100 \<and>
   trace (iteration_step example_assistant 100 (example_iteration\<lparr>current_time := 102\<rparr>)) = [Sleep] \<and>
   captures (trace (iteration_step example_assistant 100 (example_iteration\<lparr>current_time := 102\<rparr>))) = []"
  by (simp add: example_assistant_simps cooldown_elapsed_def cooldown_time_def
      iteration_step_def trace_def captures_def)

section \<open>Properties of the loop\<close>

lemma cooldown_respected_skip:
  "(\<forall>t. Listen t \<notin> set tr) \<Longrightarrow> (\<forall>t. Answered t \<notin> set tr) \<Longrightarrow>
     cooldown_respected lst (tr @ es) = cooldown_respected lst es"
proof (induction tr)
  case Nil
  show ?case by simp
next
  case (Cons e tr)
  then have "cooldown_respected lst (tr @ es) = cooldown_respected lst es" by simp
  moreover from Cons.prems have "\<forall>t. e \<noteq> Listen t" "\<forall>t. e \<noteq> Answered t" by auto
  ultimately show ?case by (cases e) auto
qed

lemma iteration_step_cooldown:
  assumes "iteration_step s lst it = (r, s', last', tr)"
  shows "cooldown_respected lst (tr @ es) = cooldown_respected last' es"
proof (cases "\<not> is_speaking s \<and> \<not> audio_playing s \<and> current_time it - lst > cooldown_time")
  case False
  then have "iteration_step s lst it = (None, s, lst, [Sleep])"
    by (intro iteration_step_idle) auto
  with assms show ?thesis by auto
next
  case True
  with iteration_step_shape [OF assms] obtain mid where
    mid: "\<forall>t. Listen t \<notin> set mid" "\<forall>t. Answered t \<notin> set mid"
      "(tr = Listen (current_time it) # mid \<and> last' = lst) \<or>
       (tr = Listen (current_time it) # mid @ [Answered (end_time it)] \<and>
        last' = end_time it \<and> r = None)"
    by blast
  from mid(1,2) have skip: "\<And>l es. cooldown_respected l (mid @ es) = cooldown_respected l es"
    by (rule cooldown_respected_skip)
  from mid(3) True skip show ?thesis by auto
qed

lemma listen_and_process_from_cooldown:
  "cooldown_respected lst (trace (listen_and_process_from s lst schedule))"
proof (induction schedule arbitrary: s lst)
  case Nil
  show ?case by (simp add: trace_def)
next
  case (Cons x schedule)
  show ?case
  proof (cases x)
    case (Call c)
    with Cons.IH [of lst "facade c s"] show ?thesis by simp
  next
    case (Iteration it)
    show ?thesis
    proof (cases "is_listening s")
      case False
      with Iteration show ?thesis by (simp add: trace_def)
    next
      case True
      obtain r s1 last1 tr1 where st: "iteration_step s lst it = (r, s1, last1, tr1)"
        by (cases "iteration_step s lst it") auto
      note cd = iteration_step_cooldown [OF st]
      show ?thesis
      proof (cases r)
        case (Some e)
        with True Iteration st have "trace (listen_and_process_from s lst (x # schedule)) = tr1"
          by (simp add: trace_def)
        with cd [of "[]"] show ?thesis by simp
      next
        case None
        obtain r2 s2 last2 tr2 where
          rest: "listen_and_process_from s1 last1 schedule = (r2, s2, last2, tr2)"
          by (cases "listen_and_process_from s1 last1 schedule") auto
        with None True Iteration st
        have "trace (listen_and_process_from s lst (x # schedule)) = tr1 @ tr2"
          by (simp add: trace_def)
        moreover from Cons.IH [of last1 s1] rest have "cooldown_respected last1 tr2"
          by (simp add: trace_def)
        ultimately show ?thesis using cd [of tr2] by simp
      qed
    qed
  qed
qed

lemma cooldown_respected_between:
  assumes "cooldown_respected lst (pre @ Answered t1 # mid @ Listen t2 # post)"
    and "\<forall>t. Answered t \<notin> set mid"
  shows "cooldown_time \<le> t2 - t1"
proof -
  have after: "cooldown_respected l (xs @ Listen t2 # post) \<Longrightarrow> \<forall>t. Answered t \<notin> set xs \<Longrightarrow>
      cooldown_time \<le> t2 - l" for l xs
  proof (induction xs)
    case Nil
    then show ?case by simp
  next
    case (Cons e xs)
    from Cons.prems(2) have "\<forall>t. e \<noteq> Answered t" by auto
    with Cons.prems(1) have "cooldown_respected l (xs @ Listen t2 # post)"
      by (cases e) auto
    with Cons show ?case by simp
  qed
  have "cooldown_respected l (pre @ Answered t1 # mid @ Listen t2 # post) \<Longrightarrow>
      cooldown_respected t1 (mid @ Listen t2 # post)" for l
  proof (induction pre arbitrary: l)
    case Nil
    then show ?case by simp
  next
    case (Cons e pre)
    then show ?case by (cases e) auto
  qed
  with assms after show ?thesis by blast
qed

text \<open>
  C5: in every run of the loop, a capture attempt that follows the completion of an
  answer, with no other answer completed in between, starts no less than the cooldown
  interval after the completion time that was recorded. In particular this holds for the
  capture of the second of two questions accepted one after the other.
\<close>

theorem cooldown_between_questions:
  assumes "trace (listen_and_process s schedule) = pre @ Answered t1 # mid @ Listen t2 # post"
    and "\<forall>t. Answered t \<notin> set mid"
  shows "cooldown_time \<le> t2 - t1"
proof -
  from listen_and_process_from_cooldown [of 0 s schedule] assms(1)
  have "cooldown_respected 0 (pre @ Answered t1 # mid @ Listen t2 # post)"
    by (simp add: listen_and_process_def)
  then show ?thesis using assms(2) by (rule cooldown_respected_between)
qed

lemma listen_try_accepted:
  assumes "listen it = None" and "recognize_google it = Inr transcript"
    and "is_question transcript" and "capitalize_question transcript = Inr question"
    and "update_ui_question it = None"
    and "get_ai_response (s\<lparr>is_speaking := True\<rparr>) (remote it) question = (Inr response, tr1)"
  shows "listen_try s lst it =
    (case update_ui_answer it of
       Some e \<Rightarrow>
         (Some e, s\<lparr>is_speaking := True\<rparr>, lst,
          [Listen (current_time it), Recognize, UpdateUI (''Q: '' @ question) []] @ tr1 @
          [UpdateUI [] response])
     | None \<Rightarrow>
         (None, s\<lparr>is_speaking := True, is_speaking := False\<rparr>, end_time it,
          [Listen (current_time it), Recognize, UpdateUI (''Q: '' @ question) []] @ tr1 @
          [UpdateUI [] response, Answered (end_time it)]))"
  using assms by (simp add: listen_try_def Let_def split: option.splits)

lemma strip_example: "strip '' Yes. '' = ''Yes.''"
  by code_simp

lemma get_ai_response_example:
  "get_ai_response (example_assistant\<lparr>is_speaking := True\<rparr>) example_services ''Are you there?'' =
     (Inr (json_dumps ''Yes.'' (Some ''YWJj'')),
      [ChatCompletion ''Are you there?'', Speech ''Yes.''])"
  by (simp add: get_ai_response_def get_ai_response_try_def example_services_def
      example_assistant_simps strip_example Let_def)

lemma example_assistant_speaking_reset:
  "example_assistant\<lparr>is_speaking := True, is_speaking := False\<rparr> = example_assistant"
  by (simp add: example_assistant_def toggle_listening_def set_api_key_def
      new_assistant_def Let_def)

lemma example_iteration_step:
  assumes "cooldown_time < t - lst"
  shows "iteration_step example_assistant lst (example_iteration\<lparr>current_time := t, end_time := t'\<rparr>) =
    (None, example_assistant, t',
     [Listen t, Recognize, UpdateUI ''Q: Are you there?'' [],
      ChatCompletion ''Are you there?'', Speech ''Yes.'',
      UpdateUI [] (json_dumps ''Yes.'' (Some ''YWJj'')), Answered t'])"
proof -
  let ?it = "example_iteration\<lparr>current_time := t, end_time := t'\<rparr>"
  have "listen_try example_assistant lst ?it =
    (None, example_assistant\<lparr>is_speaking := True, is_speaking := False\<rparr>, t',
     [Listen t, Recognize, UpdateUI ''Q: Are you there?'' [],
      ChatCompletion ''Are you there?'', Speech ''Yes.'',
      UpdateUI [] (json_dumps ''Yes.'' (Some ''YWJj'')), Answered t'])"
    using listen_try_accepted [of ?it "''are you there''" "''Are you there?''"
        example_assistant "json_dumps ''Yes.'' (Some ''YWJj'')"
        "[ChatCompletion ''Are you there?'', Speech ''Yes.'']" lst]
    by (simp add: example_iteration_def is_question_are_you_there capitalize_are_you_there
        get_ai_response_example)
  with assms show ?thesis
    by (simp add: iteration_step_def example_assistant_simps example_assistant_speaking_reset)
qed

theorem cooldown_between_questions_witness:
  "trace (listen_and_process example_assistant
     [Iteration (example_iteration\<lparr>current_time := 100, end_time := 103\<rparr>),
      Iteration (example_iteration\<lparr>current_time := 104, end_time := 105\<rparr>),
      Iteration (example_iteration\<lparr>current_time := 106, end_time := 109\<rparr>)]) =
     [Listen 100, Recognize, UpdateUI ''Q: Are you there?'' [],
      ChatCompletion ''Are you there?'', Speech ''Yes.'',
      UpdateUI [] (json_dumps ''Yes.'' (Some ''YWJj''))] @
     Answered 103 # [Sleep] @ Listen 106 #
     [Recognize, UpdateUI ''Q: Are you there?'' [],
      ChatCompletion ''Are you there?'', Speech ''Yes.'',
      UpdateUI [] (json_dumps ''Yes.'' (Some ''YWJj'')), Answered 109] \<and>
   (\<forall>t. Answered t \<notin> set [Sleep]) \<and> cooldown_time \<le> 106 - 103"
proof -
  let ?schedule =
    "[Iteration (example_iteration\<lparr>current_time := 100, end_time := 103\<rparr>),
      Iteration (example_iteration\<lparr>current_time := 104, end_time := 105\<rparr>),
      Iteration (example_iteration\<lparr>current_time := 106, end_time := 109\<rparr>)]"
  have idle: "iteration_step example_assistant 103
      (example_iteration\<lparr>current_time := 104, end_time := 105\<rparr>) =
      (None, example_assistant, 103, [Sleep])"
    by (intro iteration_step_idle) (simp add: cooldown_time_def)
  have tr: "trace (listen_and_process example_assistant ?schedule) =
     [Listen 100, Recognize, UpdateUI ''Q: Are you there?'' [],
      ChatCompletion ''Are you there?'', Speech ''Yes.'',
      UpdateUI [] (json_dumps ''Yes.'' (Some ''YWJj''))] @
     Answered 103 # [Sleep] @ Listen 106 #
     [Recognize, UpdateUI ''Q: Are you there?'' [],
      ChatCompletion ''Are you there?'', Speech ''Yes.'',
      UpdateUI [] (json_dumps ''Yes.'' (Some ''YWJj'')), Answered 109]"
    by (simp add: listen_and_process_def trace_def example_assistant_simps idle
        example_iteration_step cooldown_time_def)
  have mid: "\<forall>t. Answered t \<notin> set [Sleep]" by simp
  from cooldown_between_questions [OF tr mid] tr mid show ?thesis by blast
qed

section \<open>The published question line\<close>

lemma iteration_step_asked:
  assumes "\<not> is_speaking s" and "\<not> audio_playing s"
    and "cooldown_time < current_time it - lst"
    and "listen it = None" and "recognize_google it = Inr transcript"
    and "is_question transcript" and "capitalize_question transcript = Inr question"
  shows "\<exists>rest. trace (iteration_step s lst it) =
    Listen (current_time it) # Recognize # UpdateUI (''Q: '' @ question) [] # rest"
proof -
  obtain r tr1 where g:
    "get_ai_response (s\<lparr>is_speaking := True\<rparr>) (remote it) question = (r, tr1)"
    by (cases "get_ai_response (s\<lparr>is_speaking := True\<rparr>) (remote it) question")
  have "\<exists>rest. snd (snd (snd (listen_try s lst it))) =
    Listen (current_time it) # Recognize # UpdateUI (''Q: '' @ question) [] # rest"
    using assms(4-7) g
    by (auto simp: listen_try_def Let_def split: option.splits sum.splits)
  then obtain rest where
    "snd (snd (snd (listen_try s lst it))) =
      Listen (current_time it) # Recognize # UpdateUI (''Q: '' @ question) [] # rest"
    by blast
  with assms(1-3) show ?thesis
    by (cases "listen_try s lst it")
      (auto simp: iteration_step_def trace_def split: option.splits exn.splits)
qed

text \<open>
  C2, as the code has it: when the transcript "are you there" is captured, the
  normalised question is "Are you there?", and the first line published to the display
  surface is that question after the prefix "Q: ", that is "Q: Are you there?", with an
  empty answer field.
\<close>

theorem published_question_line:
  assumes "\<not> is_speaking s" and "\<not> audio_playing s"
    and "cooldown_time < current_time it - lst"
    and "listen it = None" and "recognize_google it = Inr ''are you there''"
  shows "is_question ''are you there'' \<and>
    capitalize_question ''are you there'' = Inr ''Are you there?'' \<and>
    hd (published (trace (iteration_step s lst it))) = (''Q: Are you there?'', [])"
proof -
  from iteration_step_asked [OF assms is_question_are_you_there capitalize_are_you_there]
  obtain rest where "trace (iteration_step s lst it) =
      Listen (current_time it) # Recognize # UpdateUI (''Q: '' @ ''Are you there?'') [] # rest"
    by blast
  then have "hd (published (trace (iteration_step s lst it))) = (''Q: Are you there?'', [])"
    by (simp add: published_def)
  with is_question_are_you_there capitalize_are_you_there show ?thesis by simp
qed

theorem published_question_line_witness:
  "\<not> is_speaking example_assistant \<and> \<not> audio_playing example_assistant \<and>
   cooldown_time < current_time example_iteration - 0 \<and>
   listen example_iteration = None \<and>
   recognize_google example_iteration = Inr ''are you there'' \<and>
   hd (published (trace (iteration_step example_assistant 0 example_iteration))) =
     (''Q: Are you there?'', [])"
proof -
  have h: "\<not> is_speaking example_assistant" "\<not> audio_playing example_assistant"
    "cooldown_time < current_time example_iteration - 0"
    "listen example_iteration = None"
    "recognize_google example_iteration = Inr ''are you there''"
    by (simp_all add: example_assistant_simps example_iteration_def cooldown_time_def)
  from published_question_line [OF h] h show ?thesis by blast
qed

text \<open>
  C2, as it is stated, fails: for the transcript "are you there" the question line that
  is published is not "Are you there?".
\<close>

theorem published_question_line_counterexample:
  "recognize_google example_iteration = Inr ''are you there'' \<and>
   is_question ''are you there'' \<and>
   fst (hd (published (trace (iteration_step example_assistant 0 example_iteration)))) \<noteq>
     ''Are you there?''"
proof -
  have "iteration_step example_assistant 0 (example_iteration\<lparr>current_time := 100, end_time := 103\<rparr>) =
    (None, example_assistant, 103,
     [Listen 100, Recognize, UpdateUI ''Q: Are you there?'' [],
      ChatCompletion ''Are you there?'', Speech ''Yes.'',
      UpdateUI [] (json_dumps ''Yes.'' (Some ''YWJj'')), Answered 103])"
    by (rule example_iteration_step) (simp add: cooldown_time_def)
  moreover have "example_iteration\<lparr>current_time := 100, end_time := 103\<rparr> = example_iteration"
    by (simp add: example_iteration_def)
  ultimately have
    "fst (hd (published (trace (iteration_step example_assistant 0 example_iteration)))) =
      ''Q: Are you there?''"
    by (simp add: trace_def published_def)
  then show ?thesis
    by (simp add: is_question_are_you_there example_iteration_def)
qed

section \<open>A failure while the answer is published\<close>

lemma iteration_step_answer_unpublished:
  assumes "\<not> is_speaking s" and "\<not> audio_playing s"
    and "cooldown_time < current_time it - lst"
    and "listen it = None" and "recognize_google it = Inr transcript"
    and "is_question transcript" and "update_ui_question it = None"
    and "update_ui_answer it = Some e"
  shows "\<exists>tr. iteration_step s lst it =
      (case e of Exception m \<Rightarrow> update_ui_error it | _ \<Rightarrow> None,
       s\<lparr>is_speaking := True\<rparr>, lst, tr) \<and> (\<forall>t. Answered t \<notin> set tr)"
proof -
  from assms(6) obtain question where c: "capitalize_question transcript = Inr question"
    by (cases transcript) (auto simp: capitalize_question_def Let_def is_question_empty)
  from get_ai_response_returns obtain response tr1 where g:
    "get_ai_response (s\<lparr>is_speaking := True\<rparr>) (remote it) question = (Inr response, tr1)"
    by blast
  let ?tr = "[Listen (current_time it), Recognize, UpdateUI (''Q: '' @ question) []] @ tr1 @
      [UpdateUI [] response]"
  from listen_try_accepted [OF assms(4,5,6) c assms(7) g, of lst] assms(8)
  have l: "listen_try s lst it = (Some e, s\<lparr>is_speaking := True\<rparr>, lst, ?tr)"
    by simp
  from get_ai_response_trace [OF g] have n: "\<forall>t. Answered t \<notin> set ?tr" by simp
  show ?thesis
  proof (cases e)
    case (Exception m)
    with l assms(1-3) have "iteration_step s lst it =
        (update_ui_error it, s\<lparr>is_speaking := True\<rparr>, lst,
         ?tr @ [UpdateUI (''An error occurred: '' @ m) []])"
      by (simp add: iteration_step_def)
    with n Exception show ?thesis by simp
  next
    case (WaitTimeoutError m)
    with l assms(1-3) have "iteration_step s lst it = (None, s\<lparr>is_speaking := True\<rparr>, lst, ?tr)"
      by (simp add: iteration_step_def)
    with n WaitTimeoutError show ?thesis by simp
  next
    case (UnknownValueError m)
    with l assms(1-3) have "iteration_step s lst it = (None, s\<lparr>is_speaking := True\<rparr>, lst, ?tr)"
      by (simp add: iteration_step_def)
    with n UnknownValueError show ?thesis by simp
  qed
qed

lemma facade_keeps_speaking:
  "is_speaking s \<Longrightarrow> \<not> clears_speaking (Call c) \<Longrightarrow> is_speaking (facade c s)"
  by (cases c)
    (auto simp: audio_playback_started_def toggle_tts_def toggle_listening_def Let_def)

lemma no_capture_while_speaking:
  "is_speaking s \<Longrightarrow> \<forall>x\<in>set schedule. \<not> clears_speaking x \<Longrightarrow>
     captures (trace (listen_and_process_from s lst schedule)) = [] \<and>
     fst (listen_and_process_from s lst schedule) = None"
proof (induction schedule arbitrary: s)
  case Nil
  show ?case by (simp add: trace_def captures_def)
next
  case (Cons x schedule)
  show ?case
  proof (cases x)
    case (Call c)
    with Cons.prems have "is_speaking (facade c s)"
      by (intro facade_keeps_speaking) auto
    with Cons.IH [of "facade c s"] Cons.prems(2) Call show ?thesis by simp
  next
    case (Iteration it)
    from Cons.prems(1) have idle: "iteration_step s lst it = (None, s, lst, [Sleep])"
      by (intro iteration_step_idle) simp
    from Cons.IH [OF Cons.prems(1)] Cons.prems(2)
    have rest: "captures (trace (listen_and_process_from s lst schedule)) = []"
      "fst (listen_and_process_from s lst schedule) = None"
      by simp_all
    show ?thesis
    proof (cases "is_listening s")
      case False
      with Iteration show ?thesis by (simp add: trace_def captures_def)
    next
      case True
      with Iteration idle rest show ?thesis
        by (cases "listen_and_process_from s lst schedule")
          (simp add: trace_def captures_def)
    qed
  qed
qed

text \<open>
  C9, as the code has it: suppose an iteration accepts a question and the publication of
  the answer raises. Then that exception is caught by the handlers of the iteration: one
  of the two exception classes handled silently ends the iteration normally, and any
  other is caught by the catch-all handler, which publishes an error line, so that the
  iteration raises only what this publication raises. Either way \<open>is_speaking\<close> is left
  true and \<open>last_speak_time\<close> is left as it was. While no \<open>speaking_ended\<close> or
  \<open>audio_playback_ended\<close> notification arrives, the loop makes no capture attempt,
  whatever else is scheduled; each of the two notifications clears \<open>is_speaking\<close>.
\<close>

theorem answer_publication_failure:
  assumes "\<not> is_speaking s" and "\<not> audio_playing s"
    and "cooldown_time < current_time it - lst"
    and "listen it = None" and "recognize_google it = Inr transcript"
    and "is_question transcript" and "update_ui_question it = None"
    and "update_ui_answer it = Some e"
    and "iteration_step s lst it = (r, s', last', tr)"
  shows "r = (case e of Exception m \<Rightarrow> update_ui_error it | _ \<Rightarrow> None) \<and>
    is_speaking s' \<and> last' = lst \<and> (\<forall>t. Answered t \<notin> set tr) \<and>
    (\<forall>schedule. (\<forall>x\<in>set schedule. \<not> clears_speaking x) \<longrightarrow>
       captures (trace (listen_and_process_from s' last' schedule)) = []) \<and>
    \<not> is_speaking (speaking_ended s') \<and> \<not> is_speaking (audio_playback_ended s')"
proof -
  from iteration_step_answer_unpublished [OF assms(1-8)] assms(9)
  have st: "r = (case e of Exception m \<Rightarrow> update_ui_error it | _ \<Rightarrow> None)"
    "s' = s\<lparr>is_speaking := True\<rparr>" "last' = lst" "\<forall>t. Answered t \<notin> set tr"
    by auto
  then have sp: "is_speaking s'" by simp
  have "\<forall>schedule. (\<forall>x\<in>set schedule. \<not> clears_speaking x) \<longrightarrow>
       captures (trace (listen_and_process_from s' last' schedule)) = []"
    using no_capture_while_speaking [OF sp] by blast
  with st sp show ?thesis
    by (simp add: speaking_ended_def audio_playback_ended_def)
qed

theorem answer_publication_failure_witness:
  "is_speaking (fst (snd (iteration_step example_assistant 0
      (example_iteration\<lparr>update_ui_answer := Some (Exception ''connection closed'')\<rparr>)))) \<and>
   fst (snd (snd (iteration_step example_assistant 0
      (example_iteration\<lparr>update_ui_answer := Some (Exception ''connection closed'')\<rparr>)))) = 0 \<and>
   fst (iteration_step example_assistant 0
      (example_iteration\<lparr>update_ui_answer := Some (Exception ''connection closed'')\<rparr>)) = None \<and>
   captures (trace (listen_and_process_from
      (fst (snd (iteration_step example_assistant 0
         (example_iteration\<lparr>update_ui_answer := Some (Exception ''connection closed'')\<rparr>))))
      0
      [Iteration (example_iteration\<lparr>current_time := 120\<rparr>), Call AudioPlaybackStarted,
       Iteration (example_iteration\<lparr>current_time := 130\<rparr>)])) = []"
proof -
  let ?it = "example_iteration\<lparr>update_ui_answer := Some (Exception ''connection closed'')\<rparr>"
  let ?schedule = "[Iteration (example_iteration\<lparr>current_time := 120\<rparr>),
    Call AudioPlaybackStarted, Iteration (example_iteration\<lparr>current_time := 130\<rparr>)]"
  obtain r s' last' tr where st: "iteration_step example_assistant 0 ?it = (r, s', last', tr)"
    by (cases "iteration_step example_assistant 0 ?it") auto
  have h: "\<not> is_speaking example_assistant" "\<not> audio_playing example_assistant"
    "cooldown_time < current_time ?it - 0" "listen ?it = None"
    "recognize_google ?it = Inr ''are you there''" "is_question ''are you there''"
    "update_ui_question ?it = None"
    "update_ui_answer ?it = Some (Exception ''connection closed'')"
    by (simp_all add: example_assistant_simps example_iteration_def cooldown_time_def
        is_question_are_you_there)
  have quiet: "\<forall>x\<in>set ?schedule. \<not> clears_speaking x" by simp
  note f = answer_publication_failure [OF h st]
  from f have a: "r = update_ui_error ?it" "is_speaking s'" "last' = 0"
    by simp_all
  from f have "\<forall>schedule. (\<forall>x\<in>set schedule. \<not> clears_speaking x) \<longrightarrow>
       captures (trace (listen_and_process_from s' last' schedule)) = []"
    by blast
  with quiet have "captures (trace (listen_and_process_from s' last' ?schedule)) = []"
    by blast
  moreover have "update_ui_error ?it = None" by (simp add: example_iteration_def)
  ultimately have "r = None" "is_speaking s'" "last' = 0"
    "captures (trace (listen_and_process_from s' 0 ?schedule)) = []"
    using a by simp_all
  with st show ?thesis by simp
qed

text \<open>
  C9, as it is stated, fails when the publication of the error line raises as well: the
  catch-all handler calls \<open>eel.update_ui\<close> again, and the exception of that call leaves
  the iteration and ends the loop.
\<close>

theorem answer_publication_failure_counterexample:
  "update_ui_answer (example_iteration\<lparr>update_ui_answer := Some (Exception ''connection closed''),
       update_ui_error := Some (Exception ''socket gone'')\<rparr>) =
     Some (Exception ''connection closed'') \<and>
   fst (iteration_step example_assistant 0
     (example_iteration\<lparr>update_ui_answer := Some (Exception ''connection closed''),
       update_ui_error := Some (Exception ''socket gone'')\<rparr>)) =
     Some (Exception ''socket gone'') \<and>
   fst (listen_and_process example_assistant
     [Iteration (example_iteration\<lparr>update_ui_answer := Some (Exception ''connection closed''),
        update_ui_error := Some (Exception ''socket gone'')\<rparr>)]) =
     Some (Exception ''socket gone'')"
proof -
  let ?it = "example_iteration\<lparr>update_ui_answer := Some (Exception ''connection closed''),
       update_ui_error := Some (Exception ''socket gone'')\<rparr>"
  have h: "\<not> is_speaking example_assistant" "\<not> audio_playing example_assistant"
    "cooldown_time < current_time ?it - 0" "listen ?it = None"
    "recognize_google ?it = Inr ''are you there''" "is_question ''are you there''"
    "update_ui_question ?it = None"
    "update_ui_answer ?it = Some (Exception ''connection closed'')"
    by (simp_all add: example_assistant_simps example_iteration_def cooldown_time_def
        is_question_are_you_there)
  from iteration_step_answer_unpublished [OF h] obtain tr where
    st: "iteration_step example_assistant 0 ?it =
      (Some (Exception ''socket gone''), example_assistant\<lparr>is_speaking := True\<rparr>, 0, tr)"
    by auto
  then have "fst (listen_and_process example_assistant [Iteration ?it]) =
      Some (Exception ''socket gone'')"
    by (simp add: listen_and_process_def example_assistant_simps)
  with st show ?thesis by simp
qed

section \<open>A session without a client\<close>






end
